theory Spec2Isabelle
  imports Main "HOL-Library.Sublist" "HOL-Library.AList" "HOL-Library.Multiset"
    "HOL-Library.Product_Lexorder"
begin

section \<open>Strings\<close>

text \<open>
  JavaScript strings are sequences of UTF-16 code units. They are modelled as
  \<^typ>\<open>string\<close>, a character being a code unit below 256 (Basic Latin and Latin-1
  Supplement). On these code units the two definitions below are those of JavaScript:
  \<open>toLowerCase\<close> maps \<open>A\<close>..\<open>Z\<close> and the capital letters U+00C0..U+00DE (all but the
  multiplication sign U+00D7) to the code unit 32 above and leaves every other code unit
  alone; the white space of \<open>trim\<close> and of the regular expression \<open>\s\<close> is tab, line
  feed, vertical tab, form feed, carriage return, space and the no-break space U+00A0.
  Code units from 256 on are not values of the type.
\<close>

definition upperChars :: string where
  "upperChars =
     ''ABCDEFGHIJKLMNOPQRSTUVWXYZ'' @
       [
        CHR 0xC0, CHR 0xC1, CHR 0xC2, CHR 0xC3, CHR 0xC4, CHR 0xC5, CHR 0xC6, CHR 0xC7,
        CHR 0xC8, CHR 0xC9, CHR 0xCA, CHR 0xCB, CHR 0xCC, CHR 0xCD, CHR 0xCE, CHR 0xCF,
        CHR 0xD0, CHR 0xD1, CHR 0xD2, CHR 0xD3, CHR 0xD4, CHR 0xD5, CHR 0xD6, CHR 0xD8,
        CHR 0xD9, CHR 0xDA, CHR 0xDB, CHR 0xDC, CHR 0xDD, CHR 0xDE]"

definition lowerChars :: string where
  "lowerChars =
     ''abcdefghijklmnopqrstuvwxyz'' @
       [
        CHR 0xE0, CHR 0xE1, CHR 0xE2, CHR 0xE3, CHR 0xE4, CHR 0xE5, CHR 0xE6, CHR 0xE7,
        CHR 0xE8, CHR 0xE9, CHR 0xEA, CHR 0xEB, CHR 0xEC, CHR 0xED, CHR 0xEE, CHR 0xEF,
        CHR 0xF0, CHR 0xF1, CHR 0xF2, CHR 0xF3, CHR 0xF4, CHR 0xF5, CHR 0xF6, CHR 0xF8,
        CHR 0xF9, CHR 0xFA, CHR 0xFB, CHR 0xFC, CHR 0xFD, CHR 0xFE]"

definition lowerChar :: "char \<Rightarrow> char" where
  "lowerChar c = (case map_of (zip upperChars lowerChars) c of Some d \<Rightarrow> d | None \<Rightarrow> c)"

definition toLowerCase :: "string \<Rightarrow> string" where
  "toLowerCase s = map lowerChar s"

definition isSpace :: "char \<Rightarrow> bool" where
  "isSpace c =
     (c \<in> set [CHR 0x09, CHR 0x0A, CHR 0x0B, CHR 0x0C, CHR 0x0D, CHR 0x20, CHR 0xA0])"

definition trim :: "string \<Rightarrow> string" where
  "trim s = rev (dropWhile isSpace (rev (dropWhile isSpace s)))"

text \<open>\<^verbatim>\<open>const norm = s => String(s || '').toLowerCase().trim()\<close>\<close>

definition norm :: "string \<Rightarrow> string" where
  "norm s = trim (toLowerCase s)"

text \<open>\<^verbatim>\<open>Array.prototype.join\<close>: the elements separated by \<open>sep\<close>.\<close>

fun joinWith :: "string \<Rightarrow> string list \<Rightarrow> string" where
  "joinWith sep [] = []"
| "joinWith sep [x] = x"
| "joinWith sep (x # y # ys) = x @ sep @ joinWith sep (y # ys)"

text \<open>
  \<^verbatim>\<open>s.split(/\s+/)\<close>: the pieces of \<open>s\<close> between the maximal runs of white space.
  A leading or trailing run leaves an empty first or last piece, and the empty string
  splits into one empty piece, as in JavaScript.
\<close>

function splitWs :: "string \<Rightarrow> string list" where
  "splitWs s =
     (case dropWhile (\<lambda>c. \<not> isSpace c) s of
        [] \<Rightarrow> [takeWhile (\<lambda>c. \<not> isSpace c) s]
      | c # r \<Rightarrow> takeWhile (\<lambda>c. \<not> isSpace c) s # splitWs (dropWhile isSpace r))"
  by pat_completeness auto
termination
proof (relation "measure length")
  show "wf (measure length)" by simp
next
  fix s :: string and c r
  assume h: "dropWhile (\<lambda>c. \<not> isSpace c) s = c # r"
  have "length (dropWhile isSpace r) \<le> length r"
    by (rule length_dropWhile_le)
  moreover have "length (c # r) \<le> length s"
    using length_dropWhile_le [of "\<lambda>c. \<not> isSpace c" s] h by simp
  ultimately show "(dropWhile isSpace r, s) \<in> measure length"
    by simp
qed

declare splitWs.simps [simp del]

section \<open>JavaScript numbers and \<open>Array.prototype.sort\<close>\<close>

text \<open>
  The comparators of the feed subtract sort keys that may be \<open>Infinity\<close>, so the
  difference may be \<open>NaN\<close>. Numbers are integers (timestamps in milliseconds, counts,
  0/1 flags) or one of the three special values.
\<close>

datatype jsnum = Num int | PosInf | NegInf | NaN

fun js_sub :: "jsnum \<Rightarrow> jsnum \<Rightarrow> jsnum" where
  "js_sub NaN _ = NaN"
| "js_sub _ NaN = NaN"
| "js_sub (Num a) (Num b) = Num (a - b)"
| "js_sub (Num a) PosInf = NegInf"
| "js_sub (Num a) NegInf = PosInf"
| "js_sub PosInf PosInf = NaN"
| "js_sub PosInf _ = PosInf"
| "js_sub NegInf NegInf = NaN"
| "js_sub NegInf _ = NegInf"

text \<open>
  The sort reads a comparator result \<open>v\<close> as "the first argument goes after the second"
  when \<open>v > 0\<close>; a \<open>NaN\<close> result counts as \<open>+0\<close>.
\<close>

fun js_pos :: "jsnum \<Rightarrow> bool" where
  "js_pos (Num n) = (0 < n)"
| "js_pos PosInf = True"
| "js_pos NegInf = False"
| "js_pos NaN = False"

text \<open>
  \<^verbatim>\<open>Array.prototype.sort\<close> is stable, so for a consistent comparator its result is
  the one of a stable insertion sort: each element is put before the first element that
  does not go before it.
\<close>

fun jsInsert :: "('a \<Rightarrow> 'a \<Rightarrow> jsnum) \<Rightarrow> 'a \<Rightarrow> 'a list \<Rightarrow> 'a list" where
  "jsInsert cmp x [] = [x]"
| "jsInsert cmp x (y # ys) = (if js_pos (cmp x y) then y # jsInsert cmp x ys else x # y # ys)"

definition jsSort :: "('a \<Rightarrow> 'a \<Rightarrow> jsnum) \<Rightarrow> 'a list \<Rightarrow> 'a list" where
  "jsSort cmp xs = foldr (jsInsert cmp) xs []"

section \<open>Data model\<close>

text \<open>
  An event as the feed reads it. A field that may be missing from the object is an
  option; \<open>eid\<close> is the field \<open>id\<close>.
\<close>

record event =
  eid :: string
  title :: "string option"
  description :: "string option"
  organizer :: "string option"
  location :: "string option"
  level :: "string option"
  faculty :: "string option"
  tags :: "string list option"
  start :: "string option"

text \<open>The preferences object \<^verbatim>\<open>{ name, faculty, interests }\<close> written by Onboarding.\<close>

record prefs =
  prefs_name :: string
  prefs_faculty :: string
  prefs_interests :: "string list option"

text \<open>\<^verbatim>\<open>(e.tags || [])\<close> and \<^verbatim>\<open>(prefs.interests || [])\<close>\<close>

definition tagsOf :: "event \<Rightarrow> string list" where
  "tagsOf e = (case tags e of None \<Rightarrow> [] | Some ts \<Rightarrow> ts)"

definition interestsOf :: "prefs \<Rightarrow> string list" where
  "interestsOf p = (case prefs_interests p of None \<Rightarrow> [] | Some ts \<Rightarrow> ts)"

text \<open>Truthiness of an optional string: missing and empty are both falsy.\<close>

definition truthy :: "string option \<Rightarrow> bool" where
  "truthy s = (case s of None \<Rightarrow> False | Some v \<Rightarrow> v \<noteq> [])"



section \<open>Feed pipeline\<close>

subsection \<open>Catalog\<close>

text \<open>\<^verbatim>\<open>setEvents([...custom, ...fileEvents])\<close>\<close>

definition feedEvents :: "event list \<Rightarrow> event list \<Rightarrow> event list" where
  "feedEvents custom fileEvents = custom @ fileEvents"

subsection \<open>Base pool\<close>

definition facultyOk :: "prefs \<Rightarrow> event \<Rightarrow> bool" where
  "facultyOk p e =
     (\<not> truthy (faculty e) \<or> faculty e = Some ''All'' \<or> faculty e = Some (prefs_faculty p))"

definition interestOk :: "prefs \<Rightarrow> event \<Rightarrow> bool" where
  "interestOk p e = list_ex (\<lambda>t. t \<in> set (interestsOf p)) (tagsOf e)"

definition basePool :: "event list \<Rightarrow> prefs option \<Rightarrow> string \<Rightarrow> event list" where
  "basePool events pr viewMode =
     (if events = [] then []
      else if viewMode = ''personalized'' then
        (case pr of
           Some p \<Rightarrow> filter (\<lambda>e. facultyOk p e \<and> interestOk p e) events
         | None \<Rightarrow> events)
      else events)"

subsection \<open>Tag cloud\<close>




text \<open>The comparator \<^verbatim>\<open>(a, b) => b[1] - a[1]\<close> on entries.\<close>

definition byCountDesc :: "'a \<times> int \<Rightarrow> 'a \<times> int \<Rightarrow> jsnum" where
  "byCountDesc a b = js_sub (Num (snd b)) (Num (snd a))"





subsection \<open>Trending\<close>

text \<open>
  \<^verbatim>\<open>new Map(basePool.map(e => [e.id, e]))\<close>: a later event replaces an earlier one
  with the same id.
\<close>

definition idToEvent :: "event list \<Rightarrow> string \<Rightarrow> event option" where
  "idToEvent pool = map_of (rev (map (\<lambda>e. (eid e, e)) pool))"

text \<open>
  \<open>counts\<close> is \<^verbatim>\<open>Object.entries(getSaveCounts() || {})\<close>, in the order of the
  enumeration. An entry \<^verbatim>\<open>{ evt, count }\<close> of the result is the pair of what
  \<^verbatim>\<open>idToEvent.get(id)\<close> returns and the count.
\<close>

definition trending :: "(string \<times> int) list \<Rightarrow> event list \<Rightarrow> (event option \<times> int) list" where
  "trending counts pool =
     (if pool = [] then []
      else
        map (\<lambda>(i, cnt). (idToEvent pool i, cnt))
          (take 3 (jsSort byCountDesc
             (filter (\<lambda>(i, c). c > 0 \<and> idToEvent pool i \<noteq> None) counts))))"

subsection \<open>Query matcher\<close>

definition strOrEmpty :: "string option \<Rightarrow> string" where
  "strOrEmpty s = (case s of None \<Rightarrow> [] | Some v \<Rightarrow> v)"

text \<open>
  \<^verbatim>\<open>[e.title, e.description, e.organizer, e.location, ...(e.tags || [])].join(' ').toLowerCase()\<close>:
  \<open>join\<close> writes a missing element as the empty string.
\<close>

definition haystack :: "event \<Rightarrow> string" where
  "haystack e =
     toLowerCase (joinWith '' ''
       ([strOrEmpty (title e), strOrEmpty (description e), strOrEmpty (organizer e),
         strOrEmpty (location e)] @ tagsOf e))"

text \<open>\<^verbatim>\<open>query.toLowerCase().split(/\s+/).filter(Boolean)\<close>\<close>

definition queryWords :: "string \<Rightarrow> string list" where
  "queryWords query = filter (\<lambda>w. w \<noteq> []) (splitWs (toLowerCase query))"

definition matchesQuery :: "event \<Rightarrow> string \<Rightarrow> bool" where
  "matchesQuery e query =
     (if trim query = [] then True
      else list_all (\<lambda>w. sublist w (haystack e)) (queryWords query))"

subsection \<open>Visible list\<close>

text \<open>
  \<open>parseDate\<close> is \<^verbatim>\<open>new Date(iso).getTime()\<close>, with \<open>None\<close> for a result that is
  not finite (an unparseable date).
\<close>

definition dateOrInfinity :: "(string \<Rightarrow> int option) \<Rightarrow> string option \<Rightarrow> jsnum" where
  "dateOrInfinity parseDate isoStr =
     (if \<not> truthy isoStr then PosInf
      else (case parseDate (strOrEmpty isoStr) of Some t \<Rightarrow> Num t | None \<Rightarrow> PosInf))"

text \<open>The three filters: level, selected tags, search.\<close>

definition withSearch :: "event list \<Rightarrow> string \<Rightarrow> string \<Rightarrow> string list \<Rightarrow> event list" where
  "withSearch pool lvl q selectedTags =
     (let withLevel = filter (\<lambda>e. lvl = ''all'' \<or> level e = Some lvl) pool;
          selectedNorm = set (map norm selectedTags);
          withTags =
            (if selectedTags \<noteq> []
             then filter (\<lambda>e. list_ex (\<lambda>t. norm t \<in> selectedNorm) (tagsOf e)) withLevel
             else withLevel)
      in filter (\<lambda>e. matchesQuery e q) withTags)"

text \<open>\<^verbatim>\<open>(a, b) => dateOrInfinity(a.start) - dateOrInfinity(b.start)\<close>\<close>

definition byDate :: "(string \<Rightarrow> int option) \<Rightarrow> event \<Rightarrow> event \<Rightarrow> jsnum" where
  "byDate parseDate a b =
     js_sub (dateOrInfinity parseDate (start a)) (dateOrInfinity parseDate (start b))"

text \<open>\<^verbatim>\<open>+savedSet.has(x.id)\<close>\<close>

definition savedFlag :: "string set \<Rightarrow> event \<Rightarrow> int" where
  "savedFlag savedSet e = (if eid e \<in> savedSet then 1 else 0)"

definition bySavedThenDate ::
  "(string \<Rightarrow> int option) \<Rightarrow> string set \<Rightarrow> event \<Rightarrow> event \<Rightarrow> jsnum" where
  "bySavedThenDate parseDate savedSet a b =
     (let savedDiff = js_sub (Num (savedFlag savedSet b)) (Num (savedFlag savedSet a))
      in if savedDiff \<noteq> Num 0 then savedDiff else byDate parseDate a b)"

text \<open>\<open>savedSet\<close> is \<^verbatim>\<open>new Set(getSavedIds())\<close>.\<close>

definition filtered ::
  "(string \<Rightarrow> int option) \<Rightarrow> string set \<Rightarrow> event list \<Rightarrow> string \<Rightarrow> string \<Rightarrow> string \<Rightarrow>
   string list \<Rightarrow> event list" where
  "filtered parseDate savedSet pool lvl sortMode q selectedTags =
     (if sortMode = ''date''
      then jsSort (byDate parseDate) (withSearch pool lvl q selectedTags)
      else jsSort (bySavedThenDate parseDate savedSet) (withSearch pool lvl q selectedTags))"

text \<open>
  The keys the two comparators compare, for the proofs: a start time sorts before no start
  time, and under \<open>trending\<close> a saved event sorts before an unsaved one.
\<close>

definition startKey :: "jsnum \<Rightarrow> nat \<times> int" where
  "startKey d = (case d of Num t \<Rightarrow> (0, t) | _ \<Rightarrow> (1, 0))"

definition dateKey :: "(string \<Rightarrow> int option) \<Rightarrow> event \<Rightarrow> nat \<times> int" where
  "dateKey parseDate e = startKey (dateOrInfinity parseDate (start e))"

definition trendKey ::
  "(string \<Rightarrow> int option) \<Rightarrow> string set \<Rightarrow> event \<Rightarrow> nat \<times> nat \<times> int" where
  "trendKey parseDate savedSet e = (if eid e \<in> savedSet then 0 else 1, dateKey parseDate e)"

subsection \<open>Preference signals\<close>

text \<open>The two pieces of the feed's state that the signal handlers read and write.\<close>

record feedView =
  view_prefs :: "prefs option"
  viewMode :: string

text \<open>
  \<^verbatim>\<open>useState(() => getUserPrefs())\<close> and
  \<^verbatim>\<open>useState(() => (getUserPrefs() ? 'personalized' : 'all'))\<close>; \<open>stored\<close> is what
  \<open>getUserPrefs()\<close> returns.
\<close>

definition initialView :: "prefs option \<Rightarrow> feedView" where
  "initialView stored =
     \<lparr>view_prefs = stored, viewMode = (if stored \<noteq> None then ''personalized'' else ''all'')\<rparr>"

text \<open>A click on one of the two view chips.\<close>

definition setViewMode :: "string \<Rightarrow> feedView \<Rightarrow> feedView" where
  "setViewMode m v = v\<lparr>viewMode := m\<rparr>"

text \<open>The handler of \<open>userprefs-updated\<close>; \<open>detail\<close> is \<open>e.detail\<close>.\<close>

definition onPrefsUpdated :: "prefs option \<Rightarrow> prefs option \<Rightarrow> feedView \<Rightarrow> feedView" where
  "onPrefsUpdated detail stored v =
     (let newPrefs = (case detail of Some d \<Rightarrow> Some d | None \<Rightarrow> stored);
          v' = v\<lparr>view_prefs := newPrefs\<rparr>
      in if newPrefs \<noteq> None \<and> viewMode v = ''all''
         then v'\<lparr>viewMode := ''personalized''\<rparr>
         else v')"

text \<open>The handler of \<open>storage\<close>; \<open>e\<close> is the event object it receives.\<close>

definition onStorage :: "'e option \<Rightarrow> prefs option \<Rightarrow> feedView \<Rightarrow> feedView" where
  "onStorage e stored v = (if e = None then v else v\<lparr>view_prefs := stored\<rparr>)"

section \<open>Saved view\<close>

text \<open>\<^verbatim>\<open>all.filter(e => savedSet.has(e.id))\<close>, with \<open>all\<close> the result of \<open>loadEvents()\<close>.\<close>

definition savedEvents :: "event list \<Rightarrow> string set \<Rightarrow> event list" where
  "savedEvents all savedSet = filter (\<lambda>e. eid e \<in> savedSet) all"

section \<open>Preference and save store\<close>

text \<open>
  Modelled from the spec: the store module \<^verbatim>\<open>src/lib/storage.js\<close> (\<open>getUserPrefs\<close>,
  \<open>saveUserPrefs\<close>, \<open>getSavedIds\<close>, \<open>getSaveCounts\<close>, \<open>toggleSaveId\<close>) is not among the
  sources. The store holds the optional preferences, the set of saved ids and the mapping
  from ids to save counters.
\<close>

record store =
  preferences :: "prefs option"
  savedIds :: "string set"
  saveCounts :: "string \<Rightarrow> int"

text \<open>
  Modelled from the spec: the store before anything was saved (\<open>storage.js\<close> is not among
  the sources): no preferences, nothing saved, every counter 0.
\<close>

definition emptyStore :: store where
  "emptyStore = \<lparr>preferences = None, savedIds = {}, saveCounts = (\<lambda>_. 0)\<rparr>"

text \<open>
  Modelled from the spec: \<open>savePreferences\<close> of the missing \<open>storage.js\<close>: overwrites,
  never merges.
\<close>

definition savePreferences :: "prefs \<Rightarrow> store \<Rightarrow> store" where
  "savePreferences p s = s\<lparr>preferences := Some p\<rparr>"

text \<open>
  Modelled from the spec: \<open>toggleSaved\<close> (\<open>toggleSaveId\<close> of the missing \<open>storage.js\<close>):
  flips membership in the saved set and adjusts the counter of that id by +1 when the id
  becomes saved, by -1 with a floor at 0 when it stops being saved.
\<close>

definition toggleSaved :: "string \<Rightarrow> store \<Rightarrow> store" where
  "toggleSaved x s =
     (if x \<in> savedIds s
      then s\<lparr>savedIds := savedIds s - {x},
             saveCounts := (saveCounts s)(x := max 0 (saveCounts s x - 1))\<rparr>
      else s\<lparr>savedIds := insert x (savedIds s),
             saveCounts := (saveCounts s)(x := saveCounts s x + 1)\<rparr>)"

text \<open>
  Modelled from the spec: the states the store reaches from the empty store by the
  operations of the missing \<open>storage.js\<close>.
\<close>

inductive reachable :: "store \<Rightarrow> bool" where
  reachable_empty: "reachable emptyStore"
| reachable_toggle: "reachable s \<Longrightarrow> reachable (toggleSaved x s)"
| reachable_prefs: "reachable s \<Longrightarrow> reachable (savePreferences p s)"

section \<open>Sample data\<close>

text \<open>
  The two events of the scenarios: \<^verbatim>\<open>{id:"1", title:"AI Hackathon", tags:["ai","hackathon"],
  start:"2025-01-10"}\<close> and \<^verbatim>\<open>{id:"2", title:"Design Talk", tags:["design"]}\<close> with no
  start, and a date parser that knows the one date (midnight UTC, in milliseconds).
\<close>

definition scenarioEvent1 :: event where
  "scenarioEvent1 =
     \<lparr>eid = ''1'', title = Some ''AI Hackathon'', description = None, organizer = None,
      location = None, level = None, faculty = None, tags = Some [''ai'', ''hackathon''],
      start = Some ''2025-01-10''\<rparr>"

definition scenarioEvent2 :: event where
  "scenarioEvent2 =
     \<lparr>eid = ''2'', title = Some ''Design Talk'', description = None, organizer = None,
      location = None, level = None, faculty = None, tags = Some [''design''],
      start = None\<rparr>"

definition scenarioParse :: "string \<Rightarrow> int option" where
  "scenarioParse s = (if s = ''2025-01-10'' then Some 1736467200000 else None)"

text \<open>A profile as Onboarding writes it, and an event whose only tag is spelled in capitals.\<close>

definition scenarioPrefs :: prefs where
  "scenarioPrefs =
     \<lparr>prefs_name = ''Sam'', prefs_faculty = ''Science'',
      prefs_interests = Some [''ai'', ''design'']\<rparr>"

definition capitalTagEvent :: event where
  "capitalTagEvent =
     \<lparr>eid = ''3'', title = Some ''AI Night'', description = None, organizer = None,
      location = None, level = None, faculty = Some ''All'', tags = Some [''AI''],
      start = None\<rparr>"


text \<open>An event whose title and description are two halves of one word.\<close>

definition splitWordEvent :: event where
  "splitWordEvent =
     \<lparr>eid = ''4'', title = Some ''Hack'', description = Some ''athon'', organizer = None,
      location = None, level = None, faculty = None, tags = None, start = None\<rparr>"

section \<open>The character tables\<close>

text \<open>
  The capital letters are the code units 65..90, 192..214 and 216..222, and the small
  letter of each is the code unit 32 above.
\<close>

lemma upperChars_codes:
  "map of_char upperChars = [65..<91] @ [192..<215] @ [216..<223 :: nat] \<and>
   map of_char lowerChars = map (\<lambda>n. n + 32) (map of_char upperChars :: nat list)"
  by code_simp

section \<open>The store: double toggle and counters\<close>

lemma toggleSaved_nonneg:
  "\<forall>y. 0 \<le> saveCounts s y \<Longrightarrow> 0 \<le> saveCounts (toggleSaved x s) z"
  by (simp add: toggleSaved_def)

lemma fold_toggleSaved_nonneg:
  "\<forall>y. 0 \<le> saveCounts s y \<Longrightarrow> 0 \<le> saveCounts (fold toggleSaved xs s) z"
proof (induction xs arbitrary: s z)
  case Nil
  then show ?case by simp
next
  case (Cons x xs)
  have "\<forall>y. 0 \<le> saveCounts (toggleSaved x s) y"
    using Cons.prems toggleSaved_nonneg by blast
  then show ?case
    using Cons.IH by simp
qed

text \<open>
  In a state reached from the empty store no counter is negative, and the counter of a
  saved id is at least 1: the floor of the decrement is never hit there.
\<close>

lemma reachable_counts:
  "reachable s \<Longrightarrow> (\<forall>y. 0 \<le> saveCounts s y) \<and> (\<forall>y \<in> savedIds s. 1 \<le> saveCounts s y)"
proof (induction rule: reachable.induct)
  case reachable_empty
  then show ?case by (simp add: emptyStore_def)
next
  case (reachable_toggle s x)
  then show ?case by (auto simp: toggleSaved_def)
next
  case (reachable_prefs s p)
  then show ?case by (simp add: savePreferences_def)
qed

lemma toggle_twice_id:
  assumes "0 \<le> saveCounts s x" and "x \<in> savedIds s \<Longrightarrow> 1 \<le> saveCounts s x"
  shows "toggleSaved x (toggleSaved x s) = s"
proof (cases "x \<in> savedIds s")
  case True
  then have "max 0 (saveCounts s x - 1) + 1 = saveCounts s x"
    using assms by simp
  then show ?thesis
    using True by (simp add: toggleSaved_def insert_absorb)
next
  case False
  then show ?thesis
    using assms by (simp add: toggleSaved_def)
qed

text \<open>
  C7. In every state \<open>s\<close> that the store reaches from the empty store, toggling an id \<open>x\<close>
  twice in succession gives back the membership of \<open>x\<close> in the saved set and the counter
  of \<open>x\<close>; the whole store is the one before the first call.
\<close>

theorem double_toggle_restores:
  "reachable s \<Longrightarrow>
     (x \<in> savedIds (toggleSaved x (toggleSaved x s)) \<longleftrightarrow> x \<in> savedIds s) \<and>
     saveCounts (toggleSaved x (toggleSaved x s)) x = saveCounts s x \<and>
     toggleSaved x (toggleSaved x s) = s"
  using reachable_counts [of s] toggle_twice_id [of s x] by simp

theorem double_toggle_restores_witness:
  "reachable (toggleSaved ''7'' emptyStore) \<and>
   ''7'' \<in> savedIds (toggleSaved ''7'' emptyStore) \<and>
   saveCounts (toggleSaved ''7'' emptyStore) ''7'' = 1 \<and>
   ''7'' \<in> savedIds (toggleSaved ''7'' (toggleSaved ''7'' (toggleSaved ''7'' emptyStore))) \<and>
   saveCounts (toggleSaved ''7'' (toggleSaved ''7'' (toggleSaved ''7'' emptyStore))) ''7'' = 1"
proof -
  have r: "reachable (toggleSaved ''7'' emptyStore)"
    by (rule reachable_toggle [OF reachable_empty])
  have v: "''7'' \<in> savedIds (toggleSaved ''7'' emptyStore) \<and>
      saveCounts (toggleSaved ''7'' emptyStore) ''7'' = 1"
    by (simp add: toggleSaved_def emptyStore_def)
  show ?thesis
    using r v double_toggle_restores [OF r, of "''7''"] by simp
qed

text \<open>
  C8. From any initial state \<open>s0\<close> whose counters are all non-negative, after any sequence
  \<open>xs\<close> of toggles the counter of every id \<open>x\<close> is non-negative. One toggle of \<open>x\<close> adds 1
  to its counter when \<open>x\<close> becomes saved, subtracts 1 with a floor at 0 when \<open>x\<close> stops
  being saved, and leaves the counter of every other id alone.
\<close>

theorem save_counts_never_negative:
  "\<forall>y. 0 \<le> saveCounts s0 y \<Longrightarrow>
     0 \<le> saveCounts (fold toggleSaved xs s0) x \<and>
     (x \<notin> savedIds s \<longrightarrow> saveCounts (toggleSaved x s) x = saveCounts s x + 1) \<and>
     (x \<in> savedIds s \<longrightarrow> saveCounts (toggleSaved x s) x = max 0 (saveCounts s x - 1)) \<and>
     (y \<noteq> x \<longrightarrow> saveCounts (toggleSaved x s) y = saveCounts s y)"
  using fold_toggleSaved_nonneg [of s0 xs x] by (simp add: toggleSaved_def)

theorem save_counts_never_negative_witness:
  "(\<forall>y. 0 \<le> saveCounts (emptyStore\<lparr>savedIds := {''3''}\<rparr>) y) \<and>
   saveCounts (fold toggleSaved [''3'', ''3'', ''4'', ''3''] (emptyStore\<lparr>savedIds := {''3''}\<rparr>)) ''3'' = 0 \<and>
   0 \<le> saveCounts (fold toggleSaved [''3'', ''3'', ''4'', ''3''] (emptyStore\<lparr>savedIds := {''3''}\<rparr>)) ''3'' \<and>
   saveCounts (toggleSaved ''3'' (emptyStore\<lparr>savedIds := {''3''}\<rparr>)) ''3'' = 0 \<and>
   saveCounts (toggleSaved ''4'' (emptyStore\<lparr>savedIds := {''3''}\<rparr>)) ''4'' = 1"
proof -
  let ?s = "emptyStore\<lparr>savedIds := {''3''}\<rparr>"
  have h: "\<forall>y. 0 \<le> saveCounts ?s y"
    by (simp add: emptyStore_def)
  have v: "saveCounts (fold toggleSaved [''3'', ''3'', ''4'', ''3''] ?s) ''3'' = 0"
    by (simp add: toggleSaved_def emptyStore_def)
  show ?thesis
    using h v save_counts_never_negative [OF h, of "[''3'', ''3'', ''4'', ''3'']" "''3''" ?s "''4''"]
      save_counts_never_negative [OF h, of "[]" "''4''" ?s "''3''"]
    by (simp add: emptyStore_def)
qed

section \<open>Base pool\<close>

lemma basePool_unfiltered:
  "vm \<noteq> ''personalized'' \<or> pr = None \<Longrightarrow> basePool events pr vm = events"
  by (auto simp: basePool_def)

lemma basePool_personalized:
  "basePool events (Some p) ''personalized'' =
     filter (\<lambda>e. (\<not> truthy (faculty e) \<or> faculty e = Some ''All'' \<or> faculty e = Some (prefs_faculty p))
                 \<and> set (tagsOf e) \<inter> set (interestsOf p) \<noteq> {}) events"
  by (auto simp: basePool_def facultyOk_def interestOk_def list_ex_iff intro!: filter_cong)

text \<open>
  C1. The personalised base pool compares an event's tags with the user's interests by
  exact string equality, not after normalisation: the event below is open to all
  faculties and its tag \<open>AI\<close> normalises to the interest \<open>ai\<close>, yet the pool drops it.
  The selected-tag filter, which does normalise, keeps the same event for the selected
  tag \<open>ai\<close>.
\<close>

theorem basePool_ignores_tag_case:
  "basePool [capitalTagEvent] (Some scenarioPrefs) ''personalized'' = [] \<and>
   faculty capitalTagEvent = Some ''All'' \<and>
   tagsOf capitalTagEvent = [''AI''] \<and>
   norm ''AI'' \<in> set (map norm (interestsOf scenarioPrefs)) \<and>
   withSearch [capitalTagEvent] ''all'' [] [''ai''] = [capitalTagEvent]"
  by code_simp

section \<open>Preference signals\<close>

text \<open>
  C9, as stated, fails: a view that has preferences and was put in \<open>all\<close> mode by the
  user switches to \<open>personalized\<close> on the next \<open>userprefs-updated\<close> signal.
\<close>

theorem explicit_all_still_switches:
  "view_prefs (setViewMode ''all'' (initialView (Some scenarioPrefs))) = Some scenarioPrefs \<and>
   viewMode (setViewMode ''all'' (initialView (Some scenarioPrefs))) = ''all'' \<and>
   viewMode (onPrefsUpdated (Some (scenarioPrefs\<lparr>prefs_faculty := ''Arts''\<rparr>)) None
               (setViewMode ''all'' (initialView (Some scenarioPrefs)))) = ''personalized''"
  by (simp add: setViewMode_def initialView_def onPrefsUpdated_def)

text \<open>
  C9, amended. On the \<open>userprefs-updated\<close> signal the view takes the preferences of the
  signal (those of the store when the signal carries none); a view in \<open>all\<close> mode switches
  to \<open>personalized\<close> exactly when these preferences exist, whether or not it had
  preferences before, and a view in \<open>personalized\<close> mode stays in it. The \<open>storage\<close>
  signal re-reads the preferences and never changes the view mode.
\<close>

theorem prefs_signal_view_mode:
  "viewMode (onPrefsUpdated detail stored v) =
     (if (detail \<noteq> None \<or> stored \<noteq> None) \<and> viewMode v = ''all'' then ''personalized''
      else viewMode v) \<and>
   (viewMode v = ''personalized'' \<longrightarrow>
      viewMode (onPrefsUpdated detail stored v) = ''personalized'') \<and>
   view_prefs (onPrefsUpdated detail stored v) =
     (case detail of Some d \<Rightarrow> Some d | None \<Rightarrow> stored) \<and>
   viewMode (onStorage e stored v) = viewMode v \<and>
   view_prefs (onStorage (Some x) stored v) = stored"
  by (auto simp: onPrefsUpdated_def onStorage_def Let_def split: option.splits)

theorem prefs_signal_view_mode_witness:
  "viewMode (initialView (Some scenarioPrefs)) = ''personalized'' \<and>
   viewMode (onPrefsUpdated (Some scenarioPrefs) None (initialView (Some scenarioPrefs))) = ''personalized'' \<and>
   viewMode (onPrefsUpdated (Some scenarioPrefs) (Some scenarioPrefs) (initialView None)) = ''personalized'' \<and>
   viewMode (onStorage (Some ()) (Some scenarioPrefs) (initialView None)) = ''all''"
  using prefs_signal_view_mode [of "Some scenarioPrefs" None "initialView (Some scenarioPrefs)" "Some ()" "()"]
    prefs_signal_view_mode [of "Some scenarioPrefs" "Some scenarioPrefs" "initialView None" "Some ()" "()"]
  by (simp add: initialView_def)

section \<open>Saved view\<close>

text \<open>
  C10. The Saved view filters the result of \<open>loadEvents()\<close> only: a saved id \<open>i\<close> is
  the id of an event of the Saved list iff it is the id of an event of that result. A saved
  custom event \<open>c\<close> whose id is not in the static catalog is in the feed's catalog and
  not in the Saved list.
\<close>

theorem saved_view_reads_static_catalog:
  "(i \<in> savedSet \<longrightarrow>
      ((\<exists>e \<in> set (savedEvents fileEvents savedSet). eid e = i) \<longleftrightarrow>
       (\<exists>e \<in> set fileEvents. eid e = i))) \<and>
   (c \<in> set custom \<and> eid c \<in> savedSet \<and> eid c \<notin> eid ` set fileEvents \<longrightarrow>
      c \<in> set (feedEvents custom fileEvents) \<and>
      eid c \<notin> eid ` set (savedEvents fileEvents savedSet))"
  by (auto simp: savedEvents_def feedEvents_def)

theorem saved_view_reads_static_catalog_witness:
  "''1'' \<in> {''1'', ''3''} \<and> ''3'' \<in> {''1'', ''3''} \<and>
   capitalTagEvent \<in> set [capitalTagEvent] \<and>
   eid capitalTagEvent \<notin> eid ` set [scenarioEvent1, scenarioEvent2] \<and>
   savedEvents [scenarioEvent1, scenarioEvent2] {''1'', ''3''} = [scenarioEvent1] \<and>
   capitalTagEvent \<in> set (feedEvents [capitalTagEvent] [scenarioEvent1, scenarioEvent2]) \<and>
   eid capitalTagEvent \<notin> eid ` set (savedEvents [scenarioEvent1, scenarioEvent2] {''1'', ''3''})"
  using saved_view_reads_static_catalog [of "''1''" "{''1'', ''3''}" "[scenarioEvent1, scenarioEvent2]"
      capitalTagEvent "[capitalTagEvent]"]
  by (simp add: savedEvents_def feedEvents_def scenarioEvent1_def scenarioEvent2_def
      capitalTagEvent_def)

section \<open>Sorting\<close>

text \<open>With a comparator that compares keys, the sort is the stable sort by key.\<close>

lemma jsInsert_insort_key:
  assumes "\<And>x y. js_pos (cmp x y) \<longleftrightarrow> k y < k x"
  shows "jsInsert cmp x xs = insort_key k x xs"
  by (induction xs) (auto simp: assms not_less)

lemma jsSort_sort_key:
  fixes k :: "'a \<Rightarrow> 'k::linorder"
  assumes "\<And>x y. js_pos (cmp x y) \<longleftrightarrow> k y < k x"
  shows "jsSort cmp xs = sort_key k xs"
proof -
  have "jsInsert cmp = insort_key k"
    using jsInsert_insort_key [of cmp k, OF assms] by (intro ext)
  then show ?thesis
    by (simp add: jsSort_def sort_key_def)
qed

lemma byCountDesc_key: "js_pos (byCountDesc x y) \<longleftrightarrow> - snd y < - snd x"
  by (simp add: byCountDesc_def)

lemma jsSort_byCountDesc: "jsSort byCountDesc xs = sort_key (\<lambda>e. - snd e) xs"
  by (rule jsSort_sort_key) (rule byCountDesc_key)

lemma sorted_byCountDesc: "sorted_wrt (\<lambda>a b. snd b \<le> snd a) (jsSort byCountDesc xs)"
proof -
  have "sorted (map (\<lambda>e. - snd e) (sort_key (\<lambda>e. - snd e) xs))"
    by (rule sorted_sort_key)
  then show ?thesis
    by (simp add: jsSort_byCountDesc sorted_map)
qed

section \<open>Trending\<close>

lemma idToEvent_SomeD: "idToEvent pool i = Some e \<Longrightarrow> e \<in> set pool \<and> eid e = i"
  by (auto simp: idToEvent_def dest!: map_of_SomeD)

lemma idToEvent_None: "idToEvent pool i = None \<longleftrightarrow> i \<notin> eid ` set pool"
  by (simp add: idToEvent_def map_of_eq_None_iff image_image)

text \<open>
  C4. The trending list has at most 3 entries; every entry has a count above 0 and is an
  event of the base pool whose id carries that count in SaveCounts (an id that is not in
  the pool is left out); the entries are in descending order of count; and an empty base
  pool gives an empty list.
\<close>

theorem trending_top3:
  "length (trending counts pool) \<le> 3 \<and>
   (\<forall>(ev, c) \<in> set (trending counts pool).
      0 < c \<and> (\<exists>e \<in> set pool. ev = Some e \<and> (eid e, c) \<in> set counts)) \<and>
   sorted_wrt (\<lambda>a b. snd b \<le> snd a) (trending counts pool) \<and>
   trending counts [] = []"
proof -
  let ?kept = "filter (\<lambda>(i, c). c > 0 \<and> idToEvent pool i \<noteq> None) counts"
  let ?top = "take 3 (jsSort byCountDesc ?kept)"
  have len: "length (trending counts pool) \<le> 3"
    by (simp add: trending_def)
  have mem: "\<forall>(ev, c) \<in> set (trending counts pool).
      0 < c \<and> (\<exists>e \<in> set pool. ev = Some e \<and> (eid e, c) \<in> set counts)"
  proof (cases "pool = []")
    case True
    then show ?thesis by (simp add: trending_def)
  next
    case False
    have "set ?top \<subseteq> set ?kept"
      using set_take_subset [of 3 "jsSort byCountDesc ?kept"]
      by (simp add: jsSort_byCountDesc)
    then have "\<forall>(i, c) \<in> set ?top. 0 < c \<and> idToEvent pool i \<noteq> None \<and> (i, c) \<in> set counts"
      by auto
    then show ?thesis
      using False by (fastforce simp: trending_def dest: idToEvent_SomeD)
  qed
  have "sorted_wrt (\<lambda>a b. snd b \<le> snd a) ?top"
    using sorted_byCountDesc [of ?kept] by (rule sorted_wrt_take)
  then have srt: "sorted_wrt (\<lambda>a b. snd b \<le> snd a) (trending counts pool)"
    by (simp add: trending_def sorted_wrt_map case_prod_beta)
  show ?thesis
    using len mem srt by (simp add: trending_def)
qed

theorem trending_top3_witness:
  "trending [(''2'', 1), (''9'', 7), (''1'', 3), (''3'', 0)]
       [scenarioEvent1, scenarioEvent2, capitalTagEvent]
     = [(Some scenarioEvent1, 3), (Some scenarioEvent2, 1)] \<and>
   length (trending [(''2'', 1), (''9'', 7), (''1'', 3), (''3'', 0)]
       [scenarioEvent1, scenarioEvent2, capitalTagEvent]) \<le> 3 \<and>
   sorted_wrt (\<lambda>a b. snd b \<le> snd a)
     (trending [(''2'', 1), (''9'', 7), (''1'', 3), (''3'', 0)]
       [scenarioEvent1, scenarioEvent2, capitalTagEvent])"
proof -
  have v: "trending [(''2'', 1), (''9'', 7), (''1'', 3), (''3'', 0)]
       [scenarioEvent1, scenarioEvent2, capitalTagEvent]
     = [(Some scenarioEvent1, 3), (Some scenarioEvent2, 1)]"
    by (simp add: trending_def idToEvent_def jsSort_def byCountDesc_def scenarioEvent1_def
        scenarioEvent2_def capitalTagEvent_def)
  show ?thesis
    using v trending_top3 [of "[(''2'', 1), (''9'', 7), (''1'', 3), (''3'', 0)]"
        "[scenarioEvent1, scenarioEvent2, capitalTagEvent]"]
    by simp
qed

section \<open>Visible list: the two sort orders\<close>

lemma dateOrInfinity_cases:
  "(\<exists>t. dateOrInfinity pd s = Num t) \<or> dateOrInfinity pd s = PosInf"
  by (simp add: dateOrInfinity_def split: option.splits)

lemma dateOrInfinity_PosInf:
  "dateOrInfinity pd s = PosInf \<longleftrightarrow> \<not> truthy s \<or> pd (strOrEmpty s) = None"
  by (simp add: dateOrInfinity_def split: option.splits)

lemma dateOrInfinity_Num:
  "dateOrInfinity pd s = Num t \<longleftrightarrow> truthy s \<and> pd (strOrEmpty s) = Some t"
  by (simp add: dateOrInfinity_def split: option.splits)

lemma byDate_key: "js_pos (byDate pd x y) \<longleftrightarrow> dateKey pd y < dateKey pd x"
  using dateOrInfinity_cases [of pd "start x"] dateOrInfinity_cases [of pd "start y"]
  by (auto simp: byDate_def dateKey_def startKey_def)

lemma bySavedThenDate_key:
  "js_pos (bySavedThenDate pd ss x y) \<longleftrightarrow> trendKey pd ss y < trendKey pd ss x"
  using byDate_key [of pd x y]
  by (auto simp: bySavedThenDate_def trendKey_def savedFlag_def Let_def)

lemma dateKey_le:
  "dateKey pd a \<le> dateKey pd b \<longleftrightarrow>
     (\<forall>ta tb. dateOrInfinity pd (start a) = Num ta \<and> dateOrInfinity pd (start b) = Num tb
        \<longrightarrow> ta \<le> tb) \<and>
     (dateOrInfinity pd (start a) = PosInf \<longrightarrow> dateOrInfinity pd (start b) = PosInf)"
  using dateOrInfinity_cases [of pd "start a"] dateOrInfinity_cases [of pd "start b"]
  by (auto simp: dateKey_def startKey_def)

lemma dateKey_eq:
  "dateOrInfinity pd (start e) = k \<longleftrightarrow>
     (k = PosInf \<or> (\<exists>t. k = Num t)) \<and> dateKey pd e = startKey k"
  using dateOrInfinity_cases [of pd "start e"]
  by (auto simp: dateKey_def startKey_def)

lemma filter_date_stable:
  fixes xs ys :: "event list"
  assumes "\<And>c. filter (\<lambda>e. dateKey pd e = c) ys = filter (\<lambda>e. dateKey pd e = c) xs"
  shows "filter (\<lambda>e. dateOrInfinity pd (start e) = k) ys =
         filter (\<lambda>e. dateOrInfinity pd (start e) = k) xs"
proof (cases "k = PosInf \<or> (\<exists>t. k = Num t)")
  case True
  have "(dateOrInfinity pd (start e) = k) = (dateKey pd e = startKey k)" for e :: event
    using True dateKey_eq [of pd e k] by simp
  then show ?thesis
    using assms by simp
next
  case False
  have "dateOrInfinity pd (start e) \<noteq> k" for e :: event
    using False dateOrInfinity_cases [of pd "start e"] by auto
  then show ?thesis by simp
qed

text \<open>
  C5. With sort \<open>date\<close> the visible list holds the events that pass the three filters,
  each as often as before the sort. The sort key of an event is the time \<open>t\<close> that its
  start parses to when the start field is present, not empty and parseable, and infinity
  otherwise. Two events with start times are in ascending order of start time. After an
  event with no start time (the field missing or empty, or not parseable) only such events
  follow, so every event with a start time is before all of them. The sort is stable: the
  events of one sort key are in their order of before.
\<close>

theorem date_sort_unscheduled_last:
  assumes "vis = filtered pd ss pool lvl ''date'' q sel"
  shows "mset vis = mset (withSearch pool lvl q sel) \<and>
    sorted_wrt (\<lambda>a b. \<forall>ta tb.
        dateOrInfinity pd (start a) = Num ta \<and> dateOrInfinity pd (start b) = Num tb
          \<longrightarrow> ta \<le> tb) vis \<and>
    sorted_wrt (\<lambda>a b.
        dateOrInfinity pd (start a) = PosInf \<longrightarrow> dateOrInfinity pd (start b) = PosInf) vis \<and>
    (\<forall>e t. dateOrInfinity pd (start e) = Num t \<longleftrightarrow>
        truthy (start e) \<and> pd (strOrEmpty (start e)) = Some t) \<and>
    (\<forall>e. dateOrInfinity pd (start e) = PosInf \<longleftrightarrow>
        \<not> truthy (start e) \<or> pd (strOrEmpty (start e)) = None) \<and>
    (\<forall>k. filter (\<lambda>e. dateOrInfinity pd (start e) = k) vis =
         filter (\<lambda>e. dateOrInfinity pd (start e) = k) (withSearch pool lvl q sel))"
proof -
  let ?xs = "withSearch pool lvl q sel"
  have vis: "vis = sort_key (dateKey pd) ?xs"
    using assms jsSort_sort_key [of "byDate pd" "dateKey pd" ?xs]
    by (simp add: filtered_def byDate_key)
  have m: "mset vis = mset ?xs"
    by (simp add: vis)
  have "sorted (map (dateKey pd) vis)"
    unfolding vis by (rule sorted_sort_key)
  then have s: "sorted_wrt (\<lambda>a b. dateKey pd a \<le> dateKey pd b) vis"
    by (simp add: sorted_map)
  have s1: "sorted_wrt (\<lambda>a b. \<forall>ta tb.
        dateOrInfinity pd (start a) = Num ta \<and> dateOrInfinity pd (start b) = Num tb
          \<longrightarrow> ta \<le> tb) vis"
    by (rule sorted_wrt_mono_rel [OF _ s]) (simp add: dateKey_le)
  have s2: "sorted_wrt (\<lambda>a b.
        dateOrInfinity pd (start a) = PosInf \<longrightarrow> dateOrInfinity pd (start b) = PosInf) vis"
    by (rule sorted_wrt_mono_rel [OF _ s]) (simp add: dateKey_le)
  have st: "\<forall>k. filter (\<lambda>e. dateOrInfinity pd (start e) = k) vis =
         filter (\<lambda>e. dateOrInfinity pd (start e) = k) ?xs"
    using filter_date_stable [of pd vis ?xs] by (simp add: vis sort_key_stable)
  have nu: "\<forall>e t. dateOrInfinity pd (start e) = Num t \<longleftrightarrow>
        truthy (start e) \<and> pd (strOrEmpty (start e)) = Some t"
    by (simp add: dateOrInfinity_Num)
  have pi: "\<forall>e. dateOrInfinity pd (start e) = PosInf \<longleftrightarrow>
        \<not> truthy (start e) \<or> pd (strOrEmpty (start e)) = None"
    by (simp add: dateOrInfinity_PosInf)
  show ?thesis
    by (intro conjI m s1 s2 st nu pi)
qed


theorem date_sort_unscheduled_last_witness:
  "filtered scenarioParse {} [scenarioEvent2, scenarioEvent1] ''all'' ''date'' [] []
     = [scenarioEvent1, scenarioEvent2] \<and>
   start scenarioEvent1 = Some ''2025-01-10'' \<and>
   scenarioParse ''2025-01-10'' = Some 1736467200000 \<and>
   dateOrInfinity scenarioParse (start scenarioEvent1) = Num 1736467200000 \<and>
   start scenarioEvent2 = None \<and>
   dateOrInfinity scenarioParse (start scenarioEvent2) = PosInf \<and>
   sorted_wrt (\<lambda>a b. dateOrInfinity scenarioParse (start a) = PosInf \<longrightarrow>
        dateOrInfinity scenarioParse (start b) = PosInf)
     (filtered scenarioParse {} [scenarioEvent2, scenarioEvent1] ''all'' ''date'' [] [])"
proof -
  have v: "filtered scenarioParse {} [scenarioEvent2, scenarioEvent1] ''all'' ''date'' [] []
     = [scenarioEvent1, scenarioEvent2]"
    by (simp add: filtered_def withSearch_def matchesQuery_def trim_def jsSort_def byDate_def
        dateOrInfinity_def truthy_def strOrEmpty_def scenarioParse_def scenarioEvent1_def
        scenarioEvent2_def)
  have d1: "start scenarioEvent1 = Some ''2025-01-10''"
    and d2: "scenarioParse ''2025-01-10'' = Some 1736467200000"
    and d4: "start scenarioEvent2 = None"
    by (simp_all add: scenarioParse_def scenarioEvent1_def scenarioEvent2_def)
  have d3: "dateOrInfinity scenarioParse (start scenarioEvent1) = Num 1736467200000"
    and d5: "dateOrInfinity scenarioParse (start scenarioEvent2) = PosInf"
    by (simp_all add: d1 d2 d4 dateOrInfinity_def truthy_def strOrEmpty_def)
  have srt: "sorted_wrt (\<lambda>a b. dateOrInfinity scenarioParse (start a) = PosInf \<longrightarrow>
        dateOrInfinity scenarioParse (start b) = PosInf)
     (filtered scenarioParse {} [scenarioEvent2, scenarioEvent1] ''all'' ''date'' [] [])"
    by (rule date_sort_unscheduled_last [OF refl, THEN conjunct2, THEN conjunct2, THEN conjunct1])
  show ?thesis
    by (intro conjI v d1 d2 d3 d4 d5 srt)
qed

lemma trendKey_le:
  "trendKey pd ss a \<le> trendKey pd ss b \<longleftrightarrow>
     (eid b \<in> ss \<longrightarrow> eid a \<in> ss) \<and>
     ((eid a \<in> ss \<longleftrightarrow> eid b \<in> ss) \<longrightarrow> dateKey pd a \<le> dateKey pd b)"
  by (auto simp: trendKey_def)

lemma filter_trend_stable:
  fixes xs ys :: "event list"
  assumes "\<And>c. filter (\<lambda>e. trendKey pd ss e = c) ys = filter (\<lambda>e. trendKey pd ss e = c) xs"
  shows "filter (\<lambda>e. (eid e \<in> ss) = f \<and> dateOrInfinity pd (start e) = k) ys =
         filter (\<lambda>e. (eid e \<in> ss) = f \<and> dateOrInfinity pd (start e) = k) xs"
proof (cases "k = PosInf \<or> (\<exists>t. k = Num t)")
  case True
  have "((eid e \<in> ss) = f \<and> dateOrInfinity pd (start e) = k) =
      (trendKey pd ss e = (if f then 0 else 1, startKey k))" for e :: event
    using True dateKey_eq [of pd e k] by (auto simp: trendKey_def)
  then show ?thesis
    using assms by simp
next
  case False
  have "dateOrInfinity pd (start e) \<noteq> k" for e :: event
    using False dateOrInfinity_cases [of pd "start e"] by auto
  then show ?thesis by simp
qed

lemma trending_scenario:
  assumes "eid e1 = ''1''" and "eid e2 = ''2''"
    and "''1'' \<notin> savedIds s" and "''2'' \<notin> savedIds s"
    and "withSearch [e1, e2] lvl q sel = [e1, e2]"
  shows "filtered pd (savedIds (toggleSaved ''2'' s)) [e1, e2] lvl ''trending'' q sel = [e2, e1]"
  using assms
  by (simp add: filtered_def jsSort_def bySavedThenDate_def savedFlag_def toggleSaved_def)

text \<open>
  C6. With sort \<open>trending\<close> the visible list holds the events that pass the three
  filters; no unsaved event is before a saved one; two events of the same saved status are
  in ascending order of start time, those with no start time last; and the sort is
  stable. The start time of an event is the time its start field parses to when the field
  is present, not empty and parseable; otherwise the event has no start time and its key
  is infinity. For an event \<open>1\<close> with a start date and an event \<open>2\<close> with none, both
  visible and neither saved, the visible order after \<open>toggleSaved("2")\<close> is
  \<open>2\<close>, \<open>1\<close>.
\<close>

theorem trending_sort_saved_first:
  assumes "vis = filtered pd ss pool lvl ''trending'' q sel"
  shows "mset vis = mset (withSearch pool lvl q sel) \<and>
    sorted_wrt (\<lambda>a b. eid b \<in> ss \<longrightarrow> eid a \<in> ss) vis \<and>
    sorted_wrt (\<lambda>a b. (eid a \<in> ss \<longleftrightarrow> eid b \<in> ss) \<longrightarrow>
        (\<forall>ta tb. dateOrInfinity pd (start a) = Num ta \<and> dateOrInfinity pd (start b) = Num tb
           \<longrightarrow> ta \<le> tb) \<and>
        (dateOrInfinity pd (start a) = PosInf \<longrightarrow> dateOrInfinity pd (start b) = PosInf)) vis \<and>
    (\<forall>e t. dateOrInfinity pd (start e) = Num t \<longleftrightarrow>
        truthy (start e) \<and> pd (strOrEmpty (start e)) = Some t) \<and>
    (\<forall>e. dateOrInfinity pd (start e) = PosInf \<longleftrightarrow>
        \<not> truthy (start e) \<or> pd (strOrEmpty (start e)) = None) \<and>
    (\<forall>f k. filter (\<lambda>e. (eid e \<in> ss) = f \<and> dateOrInfinity pd (start e) = k) vis =
         filter (\<lambda>e. (eid e \<in> ss) = f \<and> dateOrInfinity pd (start e) = k)
           (withSearch pool lvl q sel)) \<and>
    (eid e1 = ''1'' \<and> eid e2 = ''2'' \<and> truthy (start e1) \<and> start e2 = None \<and>
     ''1'' \<notin> savedIds s \<and> ''2'' \<notin> savedIds s \<and> withSearch [e1, e2] lvl q sel = [e1, e2]
       \<longrightarrow> map eid (filtered pd (savedIds (toggleSaved ''2'' s)) [e1, e2] lvl ''trending'' q sel)
             = [''2'', ''1''])"
proof -
  let ?xs = "withSearch pool lvl q sel"
  have vis: "vis = sort_key (trendKey pd ss) ?xs"
    using assms jsSort_sort_key [of "bySavedThenDate pd ss" "trendKey pd ss" ?xs]
    by (simp add: filtered_def bySavedThenDate_key)
  have m: "mset vis = mset ?xs"
    by (simp add: vis)
  have "sorted (map (trendKey pd ss) vis)"
    unfolding vis by (rule sorted_sort_key)
  then have s: "sorted_wrt (\<lambda>a b. trendKey pd ss a \<le> trendKey pd ss b) vis"
    by (simp add: sorted_map)
  have s1: "sorted_wrt (\<lambda>a b. eid b \<in> ss \<longrightarrow> eid a \<in> ss) vis"
    by (rule sorted_wrt_mono_rel [OF _ s]) (simp add: trendKey_le)
  have s2: "sorted_wrt (\<lambda>a b. (eid a \<in> ss \<longleftrightarrow> eid b \<in> ss) \<longrightarrow>
        (\<forall>ta tb. dateOrInfinity pd (start a) = Num ta \<and> dateOrInfinity pd (start b) = Num tb
           \<longrightarrow> ta \<le> tb) \<and>
        (dateOrInfinity pd (start a) = PosInf \<longrightarrow> dateOrInfinity pd (start b) = PosInf)) vis"
    by (rule sorted_wrt_mono_rel [OF _ s]) (simp add: trendKey_le dateKey_le)
  have st: "\<forall>f k. filter (\<lambda>e. (eid e \<in> ss) = f \<and> dateOrInfinity pd (start e) = k) vis =
         filter (\<lambda>e. (eid e \<in> ss) = f \<and> dateOrInfinity pd (start e) = k) ?xs"
    using filter_trend_stable [of pd ss vis ?xs] by (simp add: vis sort_key_stable)
  have sc: "eid e1 = ''1'' \<and> eid e2 = ''2'' \<and> truthy (start e1) \<and> start e2 = None \<and>
     ''1'' \<notin> savedIds s \<and> ''2'' \<notin> savedIds s \<and> withSearch [e1, e2] lvl q sel = [e1, e2]
       \<longrightarrow> map eid (filtered pd (savedIds (toggleSaved ''2'' s)) [e1, e2] lvl ''trending'' q sel)
             = [''2'', ''1'']"
    using trending_scenario [of e1 e2 s lvl q sel pd] by simp
  have nu: "\<forall>e t. dateOrInfinity pd (start e) = Num t \<longleftrightarrow>
        truthy (start e) \<and> pd (strOrEmpty (start e)) = Some t"
    by (simp add: dateOrInfinity_Num)
  have pi: "\<forall>e. dateOrInfinity pd (start e) = PosInf \<longleftrightarrow>
        \<not> truthy (start e) \<or> pd (strOrEmpty (start e)) = None"
    by (simp add: dateOrInfinity_PosInf)
  show ?thesis
    by (intro conjI m s1 s2 nu pi st sc)
qed

theorem trending_sort_saved_first_witness:
  "''1'' \<notin> savedIds emptyStore \<and> ''2'' \<notin> savedIds emptyStore \<and>
   savedIds (toggleSaved ''2'' emptyStore) = {''2''} \<and>
   withSearch [scenarioEvent1, scenarioEvent2] ''all'' [] [] = [scenarioEvent1, scenarioEvent2] \<and>
   filtered scenarioParse {} [scenarioEvent1, scenarioEvent2] ''all'' ''trending'' [] []
     = [scenarioEvent1, scenarioEvent2] \<and>
   map eid (filtered scenarioParse (savedIds (toggleSaved ''2'' emptyStore))
       [scenarioEvent1, scenarioEvent2] ''all'' ''trending'' [] []) = [''2'', ''1''] \<and>
   sorted_wrt (\<lambda>a b. eid b \<in> {''2''} \<longrightarrow> eid a \<in> {''2''})
     (filtered scenarioParse {''2''} [scenarioEvent1, scenarioEvent2] ''all'' ''trending'' [] [])"
proof -
  note T = trending_sort_saved_first [OF refl, of scenarioParse "{''2''}"
      "[scenarioEvent1, scenarioEvent2]" "''all''" "[]" "[]" scenarioEvent1 scenarioEvent2
      emptyStore]
  have h1: "eid scenarioEvent1 = ''1''" and h2: "eid scenarioEvent2 = ''2''"
    and h3: "truthy (start scenarioEvent1)" and h4: "start scenarioEvent2 = None"
    by (simp_all add: scenarioEvent1_def scenarioEvent2_def truthy_def)
  have h5: "''1'' \<notin> savedIds emptyStore" and h6: "''2'' \<notin> savedIds emptyStore"
    and h7: "savedIds (toggleSaved ''2'' emptyStore) = {''2''}"
    by (simp_all add: emptyStore_def toggleSaved_def)
  have w: "withSearch [scenarioEvent1, scenarioEvent2] ''all'' [] []
      = [scenarioEvent1, scenarioEvent2]"
    by (simp add: withSearch_def matchesQuery_def trim_def)
  have v: "filtered scenarioParse {} [scenarioEvent1, scenarioEvent2] ''all'' ''trending'' [] []
     = [scenarioEvent1, scenarioEvent2]"
    unfolding filtered_def w
    by (simp add: jsSort_def bySavedThenDate_def savedFlag_def byDate_def
        dateOrInfinity_def truthy_def strOrEmpty_def scenarioParse_def scenarioEvent1_def
        scenarioEvent2_def)
  have sc: "map eid (filtered scenarioParse (savedIds (toggleSaved ''2'' emptyStore))
       [scenarioEvent1, scenarioEvent2] ''all'' ''trending'' [] []) = [''2'', ''1'']"
    by (rule T [THEN conjunct2, THEN conjunct2, THEN conjunct2, THEN conjunct2, THEN conjunct2,
          THEN conjunct2, THEN mp])
      (intro conjI h1 h2 h3 h4 h5 h6 w)
  have srt: "sorted_wrt (\<lambda>a b. eid b \<in> {''2''} \<longrightarrow> eid a \<in> {''2''})
     (filtered scenarioParse {''2''} [scenarioEvent1, scenarioEvent2] ''all'' ''trending'' [] [])"
    by (rule T [THEN conjunct2, THEN conjunct1])
  show ?thesis
    by (intro conjI h5 h6 h7 w v sc srt)
qed

section \<open>Tag cloud\<close>























section \<open>Query matcher\<close>
















text \<open>
  The fields of the haystack are separated by a space, so a word never matches across
  two fields.
\<close>

lemma haystack_fields_separated:
  "haystack splitWordEvent = ''hack athon  '' \<and>
   \<not> matchesQuery splitWordEvent ''hackathon'' \<and>
   matchesQuery splitWordEvent ''athon hack''"
  by code_simp








end
